theory Spec2Isabelle
  imports Complex_Main "HOL-Library.Log_Nat"
begin

section \<open>Gradient descent (gradient\_descent.py)\<close>

text \<open>
  A shallow embedding of the class \<^verbatim>\<open>GradientDescent\<close>.

  Modelling conventions.
  \<^item> A Python \<^verbatim>\<open>float\<close> is an IEEE 754 binary64 number, held as the real number it
    denotes. Every arithmetic operation of the source computes the exact result and
    rounds it to the nearest double, ties to even (\<open>round64\<close>). Results beyond the largest
    double, infinities and NaN are outside the model.
  \<^item> A point (\<^verbatim>\<open>Union[float, np.ndarray]\<close>) is either a bare float or a
    one-dimensional array; arrays of more dimensions are outside the model.
  \<^item> An exception is a value \<open>Inl e\<close> of a sum type.
  \<^item> A callable is a function that returns a value or raises.
  \<^item> The standard output and the state of NumPy's process-wide random generator are
    the two components of an explicit world that \<open>optimize\<close> takes and returns.
\<close>

subsection \<open>Binary64 arithmetic\<close>

text \<open>Rounding a real number to the nearest integer, a tie to the even one.\<close>

definition rne :: "real \<Rightarrow> int" where
  "rne t =
     (let f = \<lfloor>t\<rfloor>; r = t - of_int f in
      if r < 1 / 2 then f
      else if 1 / 2 < r then f + 1
      else if even f then f else f + 1)"

text \<open>
  The binary exponent of a number other than zero: the \<open>e\<close> with
  \<open>2^e \<le> \<bar>x\<bar> < 2^(e+1)\<close> (lemmas \<open>exponent_bounds\<close> and \<open>exponent_eqI\<close>), computed from
  the bit length of the integer part of \<open>\<bar>x\<bar>\<close> or of \<open>1 / \<bar>x\<bar>\<close>.
\<close>

definition exponent :: "real \<Rightarrow> int" where
  "exponent x =
     (if 1 \<le> \<bar>x\<bar> then bitlen \<lfloor>\<bar>x\<bar>\<rfloor> - 1 else - bitlen (\<lceil>1 / \<bar>x\<bar>\<rceil> - 1))"

text \<open>
  The spacing of the doubles around \<open>x\<close>: 53 significant bits, and below \<open>2^-1022\<close> the
  fixed spacing \<open>2^-1074\<close> of the subnormal numbers.
\<close>

definition ulp64 :: "real \<Rightarrow> real" where
  "ulp64 x = 2 powi (max (exponent x) (- 1022) - 52)"

definition round64 :: "real \<Rightarrow> real" where
  "round64 x = of_int (rne (x / ulp64 x)) * ulp64 x"

text \<open>The operators \<^verbatim>\<open>+\<close>, \<^verbatim>\<open>-\<close>, \<^verbatim>\<open>*\<close> and \<^verbatim>\<open>/\<close> on two floats.\<close>

definition fadd :: "real \<Rightarrow> real \<Rightarrow> real" where
  "fadd a b = round64 (a + b)"

definition fsub :: "real \<Rightarrow> real \<Rightarrow> real" where
  "fsub a b = round64 (a - b)"

definition fmul :: "real \<Rightarrow> real \<Rightarrow> real" where
  "fmul a b = round64 (a * b)"

definition fdiv :: "real \<Rightarrow> real \<Rightarrow> real" where
  "fdiv a b = round64 (a / b)"

subsection \<open>Floats, arrays and exceptions\<close>

datatype error = ValueError string | TypeError string | EvaluationError string

datatype numeric = Float real | NDArray "real list"

type_synonym callable = "numeric \<Rightarrow> error + numeric"

text \<open>An arithmetic operation between a point and a Python float acts element by element.\<close>

fun elementwise :: "(real \<Rightarrow> real) \<Rightarrow> numeric \<Rightarrow> numeric" where
  "elementwise f (Float a) = Float (f a)"
| "elementwise f (NDArray xs) = NDArray (map f xs)"

text \<open>
  The operator \<^verbatim>\<open>-\<close> between two points, with NumPy's broadcasting of
  one-dimensional arrays: equal lengths, or one operand of length one; any other pair
  of lengths raises.
\<close>

fun subtract :: "numeric \<Rightarrow> numeric \<Rightarrow> error + numeric" where
  "subtract (Float a) (Float b) = Inr (Float (fsub a b))"
| "subtract (Float a) (NDArray ys) = Inr (NDArray (map (\<lambda>b. fsub a b) ys))"
| "subtract (NDArray xs) (Float b) = Inr (NDArray (map (\<lambda>a. fsub a b) xs))"
| "subtract (NDArray xs) (NDArray ys) =
     (if length xs = length ys then Inr (NDArray (map2 (\<lambda>a b. fsub a b) xs ys))
      else if length xs = 1 then Inr (NDArray (map (\<lambda>b. fsub (hd xs) b) ys))
      else if length ys = 1 then Inr (NDArray (map (\<lambda>a. fsub a (hd ys)) xs))
      else Inl (ValueError ''operands could not be broadcast together''))"

text \<open>\<^verbatim>\<open>if not isinstance(v, np.ndarray): v = np.array([v])\<close>\<close>

fun as_array :: "numeric \<Rightarrow> numeric" where
  "as_array (Float a) = NDArray [a]"
| "as_array (NDArray xs) = NDArray xs"

text \<open>
  \<^verbatim>\<open>np.linalg.norm\<close>, the Euclidean norm: the rounded square root of the dot product
  of the array with itself, the products summed from left to right.
\<close>

definition dot64 :: "real list \<Rightarrow> real" where
  "dot64 xs = foldl (\<lambda>s a. fadd s (fmul a a)) 0 xs"

fun linalg_norm :: "numeric \<Rightarrow> real" where
  "linalg_norm (Float a) = round64 (sqrt (dot64 [a]))"
| "linalg_norm (NDArray xs) = round64 (sqrt (dot64 xs))"

text \<open>
  The step of one iteration: \<^verbatim>\<open>delta = lr * grad\<close>, made an array when it is a bare
  float.
\<close>

definition step_delta :: "real \<Rightarrow> numeric \<Rightarrow> numeric" where
  "step_delta lr grad = as_array (elementwise (\<lambda>g. fmul lr g) grad)"

text \<open>The number of elements of a point (\<^verbatim>\<open>np.size\<close>).\<close>

fun numel :: "numeric \<Rightarrow> nat" where
  "numel (Float a) = 1"
| "numel (NDArray xs) = length xs"

subsection \<open>The optimizer object\<close>

record GradientDescent =
  func :: "callable option"
  grad_func :: "callable option"

definition init :: "callable option \<Rightarrow> callable option \<Rightarrow> error + GradientDescent" where
  "init f g =
     (if f = None \<and> g = None
      then Inl (ValueError ''Either func or grad_func must be provided'')
      else Inr \<lparr>func = f, grad_func = g\<rparr>)"

text \<open>
  \<^verbatim>\<open>_get_gradient\<close>. The literal \<^verbatim>\<open>1e-5\<close> is the double nearest to \<open>10^-5\<close>. The
  objective is evaluated at \<open>x + eps\<close> first, then at \<open>x - eps\<close>; calling an absent
  objective raises \<^verbatim>\<open>TypeError\<close>.
\<close>

definition get_gradient :: "GradientDescent \<Rightarrow> numeric \<Rightarrow> error + numeric" where
  "get_gradient self x =
     (case grad_func self of
        Some g \<Rightarrow> g x
      | None \<Rightarrow>
          (let eps = round64 (1 / 100000) in
           case func self of
             None \<Rightarrow> Inl (TypeError ''NoneType object is not callable'')
           | Some f \<Rightarrow>
               (case f (elementwise (\<lambda>a. fadd a eps) x) of
                  Inl e \<Rightarrow> Inl e
                | Inr fp \<Rightarrow>
                    (case f (elementwise (\<lambda>a. fsub a eps) x) of
                       Inl e \<Rightarrow> Inl e
                     | Inr fm \<Rightarrow>
                         (case subtract fp fm of
                            Inl e \<Rightarrow> Inl e
                          | Inr d \<Rightarrow> Inr (elementwise (\<lambda>a. fdiv a (fmul 2 eps)) d))))))"

subsection \<open>The descent loop\<close>

text \<open>A history entry is the dictionary \<^verbatim>\<open>{"x": x, "grad": grad}\<close>.\<close>

record hist =
  hist_x :: numeric
  hist_grad :: numeric

text \<open>
  The \<^verbatim>\<open>for i in range(max_iter)\<close> loop, by recursion on the number of iterations
  still to run; \<open>i\<close> is the loop index. The result holds the final \<open>x\<close>, the history, and
  \<open>Some i\<close> when the loop left by \<^verbatim>\<open>break\<close> at index \<open>i\<close> (\<^verbatim>\<open>converged = True\<close>),
  \<open>None\<close> when the range was exhausted.
\<close>

fun for_loop ::
  "GradientDescent \<Rightarrow> real \<Rightarrow> real \<Rightarrow> nat \<Rightarrow> nat \<Rightarrow> numeric \<Rightarrow> hist list
    \<Rightarrow> error + (numeric \<times> hist list \<times> nat option)" where
  "for_loop self lr eps 0 i x history = Inr (x, history, None)"
| "for_loop self lr eps (Suc n) i x history =
     (case get_gradient self x of
        Inl e \<Rightarrow> Inl e
      | Inr grad \<Rightarrow>
          (let delta = step_delta lr grad in
           if linalg_norm delta < eps then Inr (x, history, Some i)
           else
             (case subtract (as_array x) delta of
                Inl e \<Rightarrow> Inl e
              | Inr x' \<Rightarrow>
                  for_loop self lr eps n (Suc i) x'
                    (history @ [\<lparr>hist_x = x', hist_grad = grad\<rparr>]))))"

subsection \<open>Output and randomness\<close>

record world =
  stdout :: "string list"
  random_state :: "nat \<Rightarrow> real"

text \<open>\<^verbatim>\<open>str\<close> of an integer, for the f-strings.\<close>

fun str_nat :: "nat \<Rightarrow> string" where
  "str_nat n =
     (if n < 10 then [''0123456789'' ! n]
      else str_nat (n div 10) @ [''0123456789'' ! (n mod 10)])"

declare str_nat.simps [simp del]

definition str_int :: "int \<Rightarrow> string" where
  "str_int k = (if k < 0 then CHR ''-'' # str_nat (nat (- k)) else str_nat (nat k))"

definition print :: "string \<Rightarrow> world \<Rightarrow> world" where
  "print line w = w\<lparr>stdout := stdout w @ [line]\<rparr>"

text \<open>
  The starting point. \<open>random_state w\<close> is the sequence of standard-normal samples the
  process-wide generator will deliver next; \<^verbatim>\<open>np.random.randn\<close> takes as many as it
  needs from its front. \<open>shape\<close> is the one-element tuple \<open>(n,)\<close> of the annotation
  \<^verbatim>\<open>Tuple[int]\<close>; a negative \<open>n\<close> raises before anything is drawn.
\<close>

definition initial_point ::
  "numeric option \<Rightarrow> int option \<Rightarrow> world \<Rightarrow> (error + numeric) \<times> world" where
  "initial_point start shape w =
     (case start of
        Some s \<Rightarrow> (Inr s, w)
      | None \<Rightarrow>
          (case shape of
             Some n \<Rightarrow>
               (if n < 0 then (Inl (ValueError ''negative dimensions are not allowed''), w)
                else (Inr (NDArray (map (random_state w) [0..<nat n])),
                      w\<lparr>random_state := (\<lambda>k. random_state w (k + nat n))\<rparr>))
           | None \<Rightarrow>
               (Inr (Float (random_state w 0)),
                w\<lparr>random_state := (\<lambda>k. random_state w (Suc k))\<rparr>)))"

definition optimize ::
  "GradientDescent \<Rightarrow> numeric option \<Rightarrow> real \<Rightarrow> int \<Rightarrow> real \<Rightarrow> int option \<Rightarrow> world
    \<Rightarrow> (error + numeric \<times> hist list) \<times> world" where
  "optimize self start lr max_iter eps shape w =
     (case initial_point start shape w of
        (Inl e, w1) \<Rightarrow> (Inl e, w1)
      | (Inr x0, w1) \<Rightarrow>
          (case for_loop self lr eps (nat max_iter) 0 x0 [] of
             Inl e \<Rightarrow> (Inl e, w1)
           | Inr (x, history, Some i) \<Rightarrow>
               (Inr (x, history),
                print (''Converged in '' @ str_nat i @ '' iterations. Breaking...'') w1)
           | Inr (x, history, None) \<Rightarrow>
               (Inr (x, history),
                print (''Not converged after '' @ str_int max_iter @ '' iterations.'') w1)))"

subsection \<open>The objective \<open>x\<^sup>2\<close> and its gradient\<close>

text \<open>
  \<^verbatim>\<open>lambda x: x ** 2\<close> and \<^verbatim>\<open>lambda x: 2 * x\<close>, element by element on an array. The
  square is the rounded product \<open>x * x\<close>: what NumPy computes on an array, and what a
  correctly rounded \<^verbatim>\<open>pow\<close> gives on a float.
\<close>

definition square :: callable where
  "square v = Inr (elementwise (\<lambda>a. fmul a a) v)"

definition two_x :: callable where
  "two_x v = Inr (elementwise (\<lambda>a. fmul 2 a) v)"

text \<open>A gradient of two elements whatever the point: \<^verbatim>\<open>lambda x: np.array([3.0, 4.0])\<close>.\<close>

definition three_four :: callable where
  "three_four v = Inr (NDArray [3, 4])"

text \<open>A callable that raises whenever it is called.\<close>

definition raising :: callable where
  "raising v = Inl (EvaluationError ''raised by the callable'')"

text \<open>
  A world with nothing printed yet, whose generator will deliver the samples
  \<open>0, 1, 2, \<dots>\<close> in this order.
\<close>

definition world0 :: world where
  "world0 = \<lparr>stdout = [], random_state = real\<rparr>"

subsection \<open>What a history must look like\<close>

text \<open>
  \<open>descent_chain self lr eps x0 h x\<close>: starting from \<open>x0\<close>, every entry of \<open>h\<close> comes from
  one iteration that did not converge: its \<open>grad\<close> is the gradient acquired at the point
  before it, the norm of \<open>lr * grad\<close> is not below \<open>eps\<close>, and its \<open>x\<close> is that point minus
  \<open>lr * grad\<close>; \<open>x\<close> is the point reached after the last entry.
\<close>

fun descent_chain ::
  "GradientDescent \<Rightarrow> real \<Rightarrow> real \<Rightarrow> numeric \<Rightarrow> hist list \<Rightarrow> numeric \<Rightarrow> bool" where
  "descent_chain self lr eps x0 [] x = (x = x0)"
| "descent_chain self lr eps x0 (r # rs) x =
     (get_gradient self x0 = Inr (hist_grad r) \<and>
      \<not> linalg_norm (step_delta lr (hist_grad r)) < eps \<and>
      subtract (as_array x0) (step_delta lr (hist_grad r)) = Inr (hist_x r) \<and>
      descent_chain self lr eps (hist_x r) rs x)"

section \<open>Properties of binary64 rounding\<close>

lemma powi_nonneg: "0 \<le> k \<Longrightarrow> (2::real) powi k = 2 ^ nat k"
  by (simp add: power_int_def)

lemma powi_neg: "0 \<le> k \<Longrightarrow> (2::real) powi (- k) = 1 / 2 ^ nat k"
  by (simp add: power_int_minus_divide powi_nonneg)

lemma exponent_bounds:
  assumes "x \<noteq> 0"
  shows "2 powi exponent x \<le> \<bar>x\<bar>" and "\<bar>x\<bar> < 2 powi (exponent x + 1)"
proof -
  show "2 powi exponent x \<le> \<bar>x\<bar>"
  proof (cases "1 \<le> \<bar>x\<bar>")
    case True
    let ?n = "\<lfloor>\<bar>x\<bar>\<rfloor>"
    from True have n: "0 < ?n" by linarith
    from bitlen_bounds [OF n] have "2 ^ nat (bitlen ?n - 1) \<le> ?n" by simp
    then have "real_of_int (2 ^ nat (bitlen ?n - 1)) \<le> real_of_int ?n" by linarith
    also have "\<dots> \<le> \<bar>x\<bar>" by linarith
    finally have "2 ^ nat (bitlen ?n - 1) \<le> \<bar>x\<bar>" by simp
    moreover from n have "1 \<le> bitlen ?n" by (simp add: bitlen_alt_def)
    ultimately show ?thesis using True
      by (simp add: exponent_def powi_nonneg)
  next
    case False
    let ?c = "\<lceil>1 / \<bar>x\<bar>\<rceil>"
    from False assms have b: "1 < 1 / \<bar>x\<bar>" by simp
    then have c: "0 < ?c - 1" by linarith
    let ?m = "bitlen (?c - 1)"
    from bitlen_bounds [OF c] have "?c - 1 < 2 ^ nat ?m" by simp
    then have "?c \<le> 2 ^ nat ?m" by linarith
    then have "real_of_int ?c \<le> real_of_int (2 ^ nat ?m)" by linarith
    then have "1 / \<bar>x\<bar> \<le> 2 ^ nat ?m" by (simp add: ceiling_le_iff)
    then have "1 / 2 ^ nat ?m \<le> \<bar>x\<bar>"
      using assms by (simp add: field_simps)
    moreover have "0 \<le> ?m" by (rule bitlen_nonneg)
    ultimately show ?thesis using False
      by (simp add: exponent_def powi_neg)
  qed
  show "\<bar>x\<bar> < 2 powi (exponent x + 1)"
  proof (cases "1 \<le> \<bar>x\<bar>")
    case True
    let ?n = "\<lfloor>\<bar>x\<bar>\<rfloor>"
    from True have n: "0 < ?n" by linarith
    from bitlen_bounds [OF n] have "?n < 2 ^ nat (bitlen ?n)" by simp
    then have "?n + 1 \<le> 2 ^ nat (bitlen ?n)" by linarith
    then have "real_of_int (?n + 1) \<le> real_of_int (2 ^ nat (bitlen ?n))"
      by (simp only: of_int_le_iff)
    then have "real_of_int ?n + 1 \<le> 2 ^ nat (bitlen ?n)" by simp
    moreover have "\<bar>x\<bar> < real_of_int ?n + 1" by linarith
    ultimately have "\<bar>x\<bar> < 2 ^ nat (bitlen ?n)" by linarith
    moreover have "0 \<le> bitlen ?n" by (rule bitlen_nonneg)
    ultimately show ?thesis using True
      by (simp add: exponent_def powi_nonneg)
  next
    case False
    let ?c = "\<lceil>1 / \<bar>x\<bar>\<rceil>"
    from False assms have b: "1 < 1 / \<bar>x\<bar>" by simp
    then have c: "0 < ?c - 1" by linarith
    let ?m = "bitlen (?c - 1)"
    from c have m1: "1 \<le> ?m" by (simp add: bitlen_alt_def)
    from bitlen_bounds [OF c] have "2 ^ nat (?m - 1) \<le> ?c - 1" by simp
    then have "real_of_int (2 ^ nat (?m - 1)) \<le> real_of_int (?c - 1)" by linarith
    moreover have "real_of_int (?c - 1) < 1 / \<bar>x\<bar>" by linarith
    ultimately have "2 ^ nat (?m - 1) < 1 / \<bar>x\<bar>" by simp
    then have lt: "\<bar>x\<bar> < 1 / 2 ^ nat (?m - 1)"
      using assms by (simp add: field_simps)
    from m1 have "(2::real) powi (- ?m + 1) = 1 / 2 ^ nat (?m - 1)"
      using powi_neg [of "?m - 1"] by simp
    with lt False show ?thesis
      by (simp add: exponent_def)
  qed
qed


lemma exponent_eqI:
  assumes "2 powi e \<le> \<bar>x\<bar>" "\<bar>x\<bar> < 2 powi (e + 1)"
  shows "exponent x = e"
proof -
  have "0 < (2::real) powi e" by simp
  with assms(1) have "0 < \<bar>x\<bar>" by linarith
  then have nz: "x \<noteq> 0" by simp
  note b = exponent_bounds [OF nz]
  have "\<not> exponent x < e"
  proof
    assume "exponent x < e"
    then have "exponent x + 1 \<le> e" by simp
    then have "(2::real) powi (exponent x + 1) \<le> 2 powi e"
      by (intro power_int_increasing) simp_all
    with assms(1) b(2) show False by linarith
  qed
  moreover have "\<not> e < exponent x"
  proof
    assume "e < exponent x"
    then have "e + 1 \<le> exponent x" by simp
    then have "(2::real) powi (e + 1) \<le> 2 powi exponent x"
      by (intro power_int_increasing) simp_all
    with assms(2) b(1) show False by linarith
  qed
  ultimately show ?thesis by linarith
qed

lemma exponent_minus [simp]: "exponent (- x) = exponent x"
  by (simp add: exponent_def)


lemma rne_of_int [simp]: "rne (of_int k) = k"
  by (simp add: rne_def)

lemma rne_cases:
  "rne t = \<lfloor>t\<rfloor> \<and> t - of_int \<lfloor>t\<rfloor> \<le> 1 / 2 \<or>
   rne t = \<lfloor>t\<rfloor> + 1 \<and> 1 / 2 \<le> t - of_int \<lfloor>t\<rfloor>"
  by (auto simp: rne_def Let_def)

lemma rne_minus: "rne (- t) = - rne t"
proof (cases "t = of_int \<lfloor>t\<rfloor>")
  case True
  then obtain k where "t = of_int k" ..
  then show ?thesis by (simp flip: of_int_minus)
next
  case False
  then have "\<lceil>t\<rceil> = \<lfloor>t\<rfloor> + 1" by (simp add: ceiling_altdef)
  moreover have "\<lfloor>- t\<rfloor> = - \<lceil>t\<rceil>" by (simp add: ceiling_def)
  ultimately have fl: "\<lfloor>- t\<rfloor> = - \<lfloor>t\<rfloor> - 1" by simp
  have ev: "even (- \<lfloor>t\<rfloor> - 1) \<longleftrightarrow> odd \<lfloor>t\<rfloor>" by simp
  have r: "- t - of_int (- \<lfloor>t\<rfloor> - 1) = 1 - (t - of_int \<lfloor>t\<rfloor>)" by simp
  show ?thesis
    unfolding rne_def Let_def fl r ev
    by (auto simp: not_less)
qed

lemma rne_mono:
  assumes "s \<le> t"
  shows "rne s \<le> rne t"
proof (cases "\<lfloor>s\<rfloor> = \<lfloor>t\<rfloor>")
  case True
  with assms have "s - of_int \<lfloor>s\<rfloor> \<le> t - of_int \<lfloor>t\<rfloor>" by simp
  with True show ?thesis
    by (auto simp: rne_def Let_def)
next
  case False
  with assms have "\<lfloor>s\<rfloor> + 1 \<le> \<lfloor>t\<rfloor>"
    using floor_mono [OF assms] by linarith
  moreover have "rne s \<le> \<lfloor>s\<rfloor> + 1" using rne_cases [of s] by auto
  moreover have "\<lfloor>t\<rfloor> \<le> rne t" using rne_cases [of t] by auto
  ultimately show ?thesis by linarith
qed

lemma rne_ge: "of_int k \<le> t \<Longrightarrow> k \<le> rne t"
  using rne_mono [of "of_int k" t] by simp

lemma rne_le: "t \<le> of_int k \<Longrightarrow> rne t \<le> k"
  using rne_mono [of t "of_int k"] by simp


lemma powi_less_cancel: "(2::real) powi a < 2 powi b \<Longrightarrow> a < b"
  using power_int_increasing [of b a "2::real"] by (cases "a < b") auto

lemma powi_le_cancel: "(2::real) powi a \<le> 2 powi b \<Longrightarrow> a \<le> b"
  using power_int_strict_increasing [of b a "2::real"] by (cases "a \<le> b") auto

lemma powi_split: "(2::real) powi (a + b) = 2 powi a * 2 powi b"
  by (simp add: power_int_add)

lemma powi_diff: "(2::real) powi (a - b) = 2 powi a / 2 powi b"
  by (simp add: power_int_diff)

lemma ulp64_pos [simp]: "0 < ulp64 x"
  by (simp add: ulp64_def)

lemma ulp64_nonneg [simp]: "0 \<le> ulp64 x"
  by (simp add: ulp64_def)

lemma ulp64_nz [simp]: "ulp64 x \<noteq> 0"
  by (simp add: ulp64_def)

lemma rne_zero [simp]: "rne 0 = 0"
  using rne_of_int [of 0] by simp

lemma ulp64_minus [simp]: "ulp64 (- x) = ulp64 x"
  by (simp add: ulp64_def)

lemma round64_minus: "round64 (- x) = - round64 x"
  by (simp add: round64_def rne_minus)

lemma round64_zero [simp]: "round64 0 = 0"
  by (simp add: round64_def)

lemma round64_nonneg: "0 \<le> x \<Longrightarrow> 0 \<le> round64 x"
proof -
  assume "0 \<le> x"
  then have "real_of_int 0 \<le> x / ulp64 x" by simp
  from rne_ge [OF this] show ?thesis by (simp add: round64_def)
qed

lemma round64_nonpos: "x \<le> 0 \<Longrightarrow> round64 x \<le> 0"
  using round64_nonneg [of "- x"] by (simp add: round64_minus)

text \<open>The scaled value lies below \<open>2^53\<close>, and in the normal range from \<open>2^52\<close> on.\<close>

lemma scaled_less:
  assumes "x \<noteq> 0"
  shows "\<bar>x\<bar> / ulp64 x < 2 ^ 53"
proof -
  let ?E = "max (exponent x) (- 1022)"
  have "\<bar>x\<bar> < 2 powi (exponent x + 1)" by (rule exponent_bounds [OF assms])
  also have "\<dots> \<le> 2 powi (?E + 1)" by (intro power_int_increasing) simp_all
  also have "\<dots> = ulp64 x * 2 ^ 53"
    using powi_split [of "?E - 52" 53] by (simp add: ulp64_def add.commute)
  finally show ?thesis by (simp add: field_simps)
qed



text \<open>A multiple of a power of two with at most 53 significant bits is a double.\<close>

lemma round64_repr_less:
  assumes k: "\<bar>k\<bar> < 2 ^ 53" and m: "- 1074 \<le> m"
  shows "round64 (of_int k * 2 powi m) = of_int k * 2 powi m"
proof (cases "k = 0")
  case True
  then show ?thesis by simp
next
  case False
  let ?y = "real_of_int k * 2 powi m"
  let ?E = "max (exponent ?y) (- 1022)"
  from False have nz: "?y \<noteq> 0" by simp
  from k have "\<bar>real_of_int k\<bar> < 2 ^ 53"
    by (metis of_int_abs of_int_less_iff of_int_numeral of_int_power)
  then have "\<bar>?y\<bar> < 2 ^ 53 * 2 powi m"
    by (simp add: abs_mult)
  also have "\<dots> = 2 powi (m + 53)" using powi_split [of m 53] by simp
  finally have "2 powi exponent ?y < (2::real) powi (m + 53)"
    using exponent_bounds(1) [OF nz] by linarith
  then have "exponent ?y < m + 53" by (rule powi_less_cancel)
  with m have d: "0 \<le> m - ?E + 52" by simp
  have "?y / ulp64 ?y = real_of_int k * (2 powi m / 2 powi (?E - 52))"
    by (simp add: ulp64_def)
  also have "2 powi m / 2 powi (?E - 52) = (2::real) powi (m - ?E + 52)"
    using powi_diff [of m "?E - 52"] by (simp add: algebra_simps)
  also have "\<dots> = 2 ^ nat (m - ?E + 52)" using d by (rule powi_nonneg)
  finally have "?y / ulp64 ?y = real_of_int (k * 2 ^ nat (m - ?E + 52))" by simp
  then have "rne (?y / ulp64 ?y) = k * 2 ^ nat (m - ?E + 52)"
    by (simp only: rne_of_int)
  then have "round64 ?y = real_of_int (k * 2 ^ nat (m - ?E + 52)) * ulp64 ?y"
    by (simp add: round64_def)
  also have "\<dots> = ?y / ulp64 ?y * ulp64 ?y"
    using \<open>?y / ulp64 ?y = real_of_int (k * 2 ^ nat (m - ?E + 52))\<close> by simp
  also have "\<dots> = ?y" by simp
  finally show ?thesis .
qed

lemma round64_repr:
  assumes k: "\<bar>k\<bar> \<le> 2 ^ 53" and m: "- 1074 \<le> m"
  shows "round64 (of_int k * 2 powi m) = of_int k * 2 powi m"
proof (cases "\<bar>k\<bar> < 2 ^ 53")
  case True
  then show ?thesis using m by (rule round64_repr_less)
next
  case False
  with k have "k = 2 ^ 53 \<or> k = - (2 ^ 53)" by linarith
  then obtain j :: int where j: "k = j * 2" "\<bar>j\<bar> < 2 ^ 53" by auto
  have "real_of_int k * 2 powi m = real_of_int j * 2 powi (m + 1)"
    by (simp add: j(1) powi_split)
  moreover have "round64 (real_of_int j * 2 powi (m + 1)) = real_of_int j * 2 powi (m + 1)"
    using j(2) m by (intro round64_repr_less) simp_all
  ultimately show ?thesis by simp
qed

lemma round64_is_repr:
  "\<exists>k m. round64 x = of_int k * 2 powi m \<and> \<bar>k\<bar> \<le> 2 ^ 53 \<and> - 1074 \<le> m"
proof (cases "x = 0")
  case True
  then have "round64 x = of_int 0 * 2 powi 0 \<and> \<bar>0::int\<bar> \<le> 2 ^ 53 \<and> - 1074 \<le> (0::int)" by simp
  then show ?thesis by blast
next
  case False
  let ?k = "rne (x / ulp64 x)"
  let ?m = "max (exponent x) (- 1022) - 52"
  have "x / ulp64 x \<le> real_of_int (2 ^ 53)" "real_of_int (- (2 ^ 53)) \<le> x / ulp64 x"
    using scaled_less [OF False] by (simp_all add: abs_if field_simps split: if_splits)
  from rne_le [OF this(1)] rne_ge [OF this(2)]
  have "\<bar>?k\<bar> \<le> 2 ^ 53" by linarith
  moreover have "round64 x = of_int ?k * 2 powi ?m" by (simp add: round64_def ulp64_def)
  moreover have "- 1074 \<le> ?m" by simp
  ultimately show ?thesis by blast
qed

lemma round64_idem [simp]: "round64 (round64 x) = round64 x"
  using round64_is_repr [of x] round64_repr by auto





lemma round64_abs: "round64 \<bar>x\<bar> = \<bar>round64 x\<bar>"
  using round64_nonneg [of x] round64_nonpos [of x]
  by (cases "0 \<le> x") (simp_all add: round64_minus abs_if)


lemma rne_eqI:
  assumes "\<bar>t - of_int k\<bar> < 1 / 2 \<or> \<bar>t - of_int k\<bar> = 1 / 2 \<and> even k"
  shows "rne t = k"
proof -
  consider "t - of_int k < 1 / 2" "- (1 / 2) < t - of_int k" | "t - of_int k = 1 / 2" "even k"
    | "t - of_int k = - (1 / 2)" "even k"
    using assms by (auto simp: abs_if split: if_splits)
  then show ?thesis
  proof cases
    case 1
    show ?thesis
    proof (cases "of_int k \<le> t")
      case True
      with 1 have "\<lfloor>t\<rfloor> = k" by linarith
      with 1 show ?thesis by (simp add: rne_def)
    next
      case False
      with 1 have f: "\<lfloor>t\<rfloor> = k - 1" by linarith
      with 1 have "1 / 2 < t - of_int \<lfloor>t\<rfloor>" by simp
      with f show ?thesis by (simp add: rne_def)
    qed
  next
    case 2
    then have "\<lfloor>t\<rfloor> = k" by linarith
    with 2 show ?thesis by (simp add: rne_def)
  next
    case 3
    then have f: "\<lfloor>t\<rfloor> = k - 1" by linarith
    from 3 have r: "t - real_of_int (k - 1) = 1 / 2" by simp
    show ?thesis unfolding rne_def Let_def f r using 3(2) by simp
  qed
qed

text \<open>
  Computing a rounding: in the binade whose doubles are the multiples of \<open>1 / 2 ^ n\<close>, the
  result is the nearest multiple, the even one on a tie.
\<close>

lemma round64_eqI:
  assumes n: "n \<le> 1074"
    and lo: "2 ^ 52 \<le> \<bar>x\<bar> * 2 ^ n" and hi: "\<bar>x\<bar> * 2 ^ n < 2 ^ 53"
    and near: "\<bar>x * 2 ^ n - of_int k\<bar> < 1 / 2 \<or> \<bar>x * 2 ^ n - of_int k\<bar> = 1 / 2 \<and> even k"
  shows "round64 x = of_int k / 2 ^ n"
proof -
  have p: "(2::real) powi (- int n) = 1 / 2 ^ n" using powi_neg [of "int n"] by simp
  have "2 powi (52 - int n) = 2 ^ 52 * (2::real) powi (- int n)"
    using powi_split [of 52 "- int n"] by simp
  also have "\<dots> \<le> \<bar>x\<bar>" using lo by (simp add: p field_simps)
  finally have 1: "2 powi (52 - int n) \<le> \<bar>x\<bar>" .
  have "\<bar>x\<bar> < 2 ^ 53 * (2::real) powi (- int n)" using hi by (simp add: p field_simps)
  also have "\<dots> = 2 powi (52 - int n + 1)"
    using powi_split [of 53 "- int n"] by simp
  finally have 2: "\<bar>x\<bar> < 2 powi (52 - int n + 1)" .
  from exponent_eqI [OF 1 2] have e: "exponent x = 52 - int n" .
  with n have "ulp64 x = 2 powi (- int n)" by (simp add: ulp64_def)
  then have u: "ulp64 x = 1 / 2 ^ n" by (simp add: p)
  from near have "rne (x * 2 ^ n) = k" by (rule rne_eqI)
  then show ?thesis by (simp add: round64_def u)
qed

section \<open>Properties of the loop\<close>

subsection \<open>Auxiliary facts\<close>

declare linalg_norm.simps [simp del]

lemma two_x_gradient [simp]:
  "get_gradient \<lparr>func = f, grad_func = Some two_x\<rparr> v = Inr (elementwise (\<lambda>a. fmul 2 a) v)"
  by (simp add: get_gradient_def two_x_def)

text \<open>One iteration of the loop, by what it finds.\<close>

lemma for_loop_break:
  "get_gradient self x = Inr grad \<Longrightarrow> linalg_norm (step_delta lr grad) < eps \<Longrightarrow>
   for_loop self lr eps (Suc n) i x history = Inr (x, history, Some i)"
  by simp

lemma for_loop_step:
  "get_gradient self x = Inr grad \<Longrightarrow> \<not> linalg_norm (step_delta lr grad) < eps \<Longrightarrow>
   subtract (as_array x) (step_delta lr grad) = Inr x' \<Longrightarrow>
   for_loop self lr eps (Suc n) i x history =
     for_loop self lr eps n (Suc i) x' (history @ [\<lparr>hist_x = x', hist_grad = grad\<rparr>])"
  by simp



text \<open>The norm of an array, from its dot product.\<close>

lemma norm_eq:
  assumes "dot64 xs = c * c" "0 \<le> c" "round64 c = c"
  shows "linalg_norm (NDArray xs) = c"
  using assms by (simp add: linalg_norm.simps)


lemma dot64_single: "dot64 [a] = fmul a a"
  by (simp add: dot64_def fadd_def fmul_def)

lemma dot64_pair: "dot64 [a, b] = fadd (fmul a a) (fmul b b)"
  by (simp add: dot64_def fadd_def fmul_def)

lemma for_loop_chain:
  "for_loop self lr eps n i x0 h0 = Inr (x, h, c) \<Longrightarrow>
   \<exists>ext. h = h0 @ ext \<and> descent_chain self lr eps x0 ext x \<and>
     (case c of
        None \<Rightarrow> length ext = n
      | Some j \<Rightarrow> j = i + length ext \<and> length ext < n \<and>
          (\<exists>g. get_gradient self x = Inr g \<and> linalg_norm (step_delta lr g) < eps))"
proof (induction n arbitrary: i x0 h0)
  case 0
  then show ?case by simp
next
  case (Suc n)
  from Suc.prems obtain grad where g: "get_gradient self x0 = Inr grad"
    by (auto split: sum.splits)
  show ?case
  proof (cases "linalg_norm (step_delta lr grad) < eps")
    case True
    with Suc.prems g have "x = x0" "h = h0" "c = Some i" by simp_all
    with g True show ?thesis by simp
  next
    case False
    with Suc.prems g obtain x' where
      s: "subtract (as_array x0) (step_delta lr grad) = Inr x'"
      by (auto split: sum.splits)
    let ?r = "\<lparr>hist_x = x', hist_grad = grad\<rparr>"
    from Suc.prems g False s
    have "for_loop self lr eps n (Suc i) x' (h0 @ [?r]) = Inr (x, h, c)" by simp
    from Suc.IH [OF this] obtain ext where
      e: "h = (h0 @ [?r]) @ ext" "descent_chain self lr eps x' ext x"
        "(case c of None \<Rightarrow> length ext = n
          | Some j \<Rightarrow> j = Suc i + length ext \<and> length ext < n \<and>
             (\<exists>g. get_gradient self x = Inr g \<and> linalg_norm (step_delta lr g) < eps))"
      by blast
    have "h = h0 @ (?r # ext)" using e(1) by simp
    moreover have "descent_chain self lr eps x0 (?r # ext) x"
      using g False s e(2) by simp
    moreover have "(case c of None \<Rightarrow> length (?r # ext) = Suc n
          | Some j \<Rightarrow> j = i + length (?r # ext) \<and> length (?r # ext) < Suc n \<and>
             (\<exists>g. get_gradient self x = Inr g \<and> linalg_norm (step_delta lr g) < eps))"
      using e(3) by (cases c) simp_all
    ultimately show ?thesis by blast
  qed
qed

lemma chain_nth:
  "descent_chain self lr eps x0 ext x \<Longrightarrow> k < length ext \<Longrightarrow>
   get_gradient self ((x0 # map hist_x ext) ! k) = Inr (hist_grad (ext ! k)) \<and>
   \<not> linalg_norm (step_delta lr (hist_grad (ext ! k))) < eps \<and>
   subtract (as_array ((x0 # map hist_x ext) ! k)) (step_delta lr (hist_grad (ext ! k)))
     = Inr (hist_x (ext ! k))"
proof (induction ext arbitrary: x0 k)
  case Nil
  then show ?case by simp
next
  case (Cons r rs)
  show ?case
  proof (cases k)
    case 0
    with Cons.prems show ?thesis by simp
  next
    case (Suc m)
    with Cons.prems have "descent_chain self lr eps (hist_x r) rs x" "m < length rs"
      by simp_all
    from Cons.IH [OF this] Suc show ?thesis by simp
  qed
qed

lemma chain_last:
  "descent_chain self lr eps x0 ext x \<Longrightarrow> x = last (x0 # map hist_x ext)"
  by (induction ext arbitrary: x0) auto

lemma subtract_arrays_is_array:
  "subtract (as_array v) (step_delta lr g) = Inr y \<Longrightarrow> \<exists>ys. y = NDArray ys"
  by (cases v; cases g) (auto simp: step_delta_def split: if_splits)

lemma subtract_promoted:
  "subtract (NDArray xs) (as_array d) = subtract (NDArray xs) d"
  by (cases d) (auto simp: length_Suc_conv)

lemma optimize_Some_start:
  "optimize self (Some s) lr max_iter eps shape w =
     (case for_loop self lr eps (nat max_iter) 0 s [] of
        Inl e \<Rightarrow> (Inl e, w)
      | Inr (x, history, Some i) \<Rightarrow>
          (Inr (x, history),
           print (''Converged in '' @ str_nat i @ '' iterations. Breaking...'') w)
      | Inr (x, history, None) \<Rightarrow>
          (Inr (x, history),
           print (''Not converged after '' @ str_int max_iter @ '' iterations.'') w))"
  by (simp add: optimize_def initial_point_def)

lemma optimize_result:
  "initial_point start shape w = (Inr x0, w1) \<Longrightarrow>
   fst (optimize self start lr max_iter eps shape w) =
     (case for_loop self lr eps (nat max_iter) 0 x0 [] of
        Inl e \<Rightarrow> Inl e
      | Inr (x, h, c) \<Rightarrow> Inr (x, h))"
  by (simp add: optimize_def split: sum.splits option.splits prod.splits)

lemma optimize_returns:
  "initial_point start shape w = (Inr x0, w1) \<Longrightarrow>
   fst (optimize self start lr max_iter eps shape w) = Inr (x, h) \<Longrightarrow>
   \<exists>c. for_loop self lr eps (nat max_iter) 0 x0 [] = Inr (x, h, c)"
  by (simp add: optimize_result split: sum.splits prod.splits)

lemma chain_arrays:
  "descent_chain self lr eps x0 ext x \<Longrightarrow> k < length ext \<Longrightarrow> \<exists>ys. hist_x (ext ! k) = NDArray ys"
  using chain_nth subtract_arrays_is_array by blast

lemma map2_same: "map2 f (map g xs) (map h xs) = map (\<lambda>a. f (g a) (h a)) xs"
  by (induction xs) simp_all

lemma get_gradient_elementwise:
  "get_gradient \<lparr>func = Some (\<lambda>v. Inr (elementwise \<phi> v)), grad_func = None\<rparr> x =
     Inr (elementwise
       (\<lambda>a. fdiv (fsub (\<phi> (fadd a (round64 (1 / 100000)))) (\<phi> (fsub a (round64 (1 / 100000)))))
          (fmul 2 (round64 (1 / 100000)))) x)"
  by (cases x) (simp_all add: get_gradient_def Let_def map2_same o_def)

lemma square_gradient:
  "get_gradient \<lparr>func = Some square, grad_func = None\<rparr> x =
     Inr (elementwise
       (\<lambda>a. fdiv
          (fsub (fmul (fadd a (round64 (1 / 100000))) (fadd a (round64 (1 / 100000))))
             (fmul (fsub a (round64 (1 / 100000))) (fsub a (round64 (1 / 100000)))))
          (fmul 2 (round64 (1 / 100000)))) x)"
proof -
  have sq: "square = (\<lambda>v. Inr (elementwise (\<lambda>a. fmul a a) v))"
    by (simp add: square_def fun_eq_iff)
  show ?thesis unfolding sq by (rule get_gradient_elementwise)
qed





lemma str_nat_digit: "n < 10 \<Longrightarrow> str_nat n = [''0123456789'' ! n]"
  by (simp add: str_nat.simps)

lemma chain_end_array:
  "descent_chain self lr eps x0 ext x \<Longrightarrow> ext \<noteq> [] \<Longrightarrow> \<exists>ys. x = NDArray ys"
proof -
  assume ch: "descent_chain self lr eps x0 ext x" and ne: "ext \<noteq> []"
  then have "x = hist_x (ext ! (length ext - 1))"
    using chain_last [OF ch] by (simp add: last_map last_conv_nth)
  moreover from ne have "length ext - 1 < length ext" by simp
  ultimately show ?thesis using chain_arrays [OF ch] by metis
qed

lemma single_step_numel:
  "numel v = 1 \<Longrightarrow> numel g = 1 \<Longrightarrow> subtract (as_array v) (step_delta lr g) = Inr y \<Longrightarrow>
   \<exists>a. y = NDArray [a]"
  by (cases v; cases g) (auto simp: step_delta_def length_Suc_conv)

lemma chain_numel:
  assumes contract: "\<forall>v g. numel v = 1 \<longrightarrow> get_gradient self v = Inr g \<longrightarrow> numel g = 1"
  shows "descent_chain self lr eps x0 ext x \<Longrightarrow> numel x0 = 1 \<Longrightarrow> numel x = 1"
proof (induction ext arbitrary: x0)
  case Nil
  then show ?case by simp
next
  case (Cons r rs)
  from Cons.prems have g: "get_gradient self x0 = Inr (hist_grad r)"
    and s: "subtract (as_array x0) (step_delta lr (hist_grad r)) = Inr (hist_x r)"
    and ch: "descent_chain self lr eps (hist_x r) rs x"
    by simp_all
  from contract Cons.prems(2) g have "numel (hist_grad r) = 1" by blast
  from single_step_numel [OF Cons.prems(2) this s] have "numel (hist_x r) = 1" by auto
  from Cons.IH [OF ch this] show ?case .
qed

lemma optimize_chain:
  assumes "fst (optimize self (Some s) lr max_iter eps shape w) = Inr (x, h)"
  shows "descent_chain self lr eps s h x"
proof -
  have ip: "initial_point (Some s) shape w = (Inr s, w)" by (simp add: initial_point_def)
  from optimize_returns [OF ip assms] obtain c where
    "for_loop self lr eps (nat max_iter) 0 s [] = Inr (x, h, c)" ..
  from for_loop_chain [OF this] show ?thesis by auto
qed

lemma random_state_print [simp]: "random_state (print line w) = random_state w"
  by (simp add: print_def)

lemma stdout_print [simp]: "stdout (print line w) = stdout w @ [line]"
  by (simp add: print_def)

lemma optimize_world:
  "initial_point start shape w = (r, w1) \<Longrightarrow>
   random_state (snd (optimize self start lr max_iter eps shape w)) = random_state w1 \<and>
   (case fst (optimize self start lr max_iter eps shape w) of
      Inl e \<Rightarrow> stdout (snd (optimize self start lr max_iter eps shape w)) = stdout w1
    | Inr res \<Rightarrow>
        (\<exists>line. stdout (snd (optimize self start lr max_iter eps shape w)) = stdout w1 @ [line]))"
  by (auto simp: optimize_def split: sum.splits option.splits prod.splits)




lemma fsub_is_double [simp]: "round64 (fsub a b) = fsub a b"
  by (simp add: fsub_def)






subsection \<open>Concrete roundings\<close>

text \<open>
  The roundings of the runs below, each by \<open>round64_eqI\<close>: the binade is given by \<open>n\<close>, the
  double by its integer significand \<open>k\<close>.
\<close>

lemma ev1: "round64 (1 / 100000) = 5902958103587057 / 590295810358705651712"
  by (rule round64_eqI [where n = 69 and k = "5902958103587057", THEN trans]) simp_all

lemma ev2: "fadd 2 (5902958103587057 / 590295810358705651712) = 4503622145368633 / 2251799813685248"
  unfolding fadd_def
  by (rule round64_eqI [where n = 51 and k = "4503622145368633", THEN trans]) simp_all

lemma ev3: "fsub 2 (5902958103587057 / 590295810358705651712) = 4503577109372359 / 2251799813685248"
  unfolding fsub_def
  by (rule round64_eqI [where n = 52 and k = "9007154218744718", THEN trans]) simp_all

lemma ev4: "fmul (4503622145368633 / 2251799813685248) (4503622145368633 / 2251799813685248) = 70369447866865 / 17592186044416"
  unfolding fmul_def
  by (rule round64_eqI [where n = 50 and k = "4503644663479360", THEN trans]) simp_all

lemma ev5: "fmul (4503577109372359 / 2251799813685248) (4503577109372359 / 2251799813685248) = 1125888647871703 / 281474976710656"
  unfolding fmul_def
  by (rule round64_eqI [where n = 51 and k = "9007109182973624", THEN trans]) simp_all

lemma ev6: "fsub (70369447866865 / 17592186044416) (1125888647871703 / 281474976710656) = 22517998137 / 281474976710656"
  unfolding fsub_def
  by (rule round64_eqI [where n = 66 and k = "5902958103625728", THEN trans]) simp_all

lemma ev7: "fmul 2 (5902958103587057 / 590295810358705651712) = 5902958103587057 / 295147905179352825856"
  unfolding fmul_def
  by (rule round64_eqI [where n = 68 and k = "5902958103587057", THEN trans]) simp_all

lemma ev8: "fdiv (22517998137 / 281474976710656) (5902958103587057 / 295147905179352825856) = 70368744178125 / 17592186044416"
  unfolding fdiv_def
  by (rule round64_eqI [where n = 50 and k = "4503599627400000", THEN trans]) simp_all

lemma ev9: "fadd 1 (5902958103587057 / 590295810358705651712) = 2251822331683385 / 2251799813685248"
  unfolding fadd_def
  by (rule round64_eqI [where n = 52 and k = "4503644663366770", THEN trans]) simp_all

lemma ev10: "fsub 1 (5902958103587057 / 590295810358705651712) = 9007109182748445 / 9007199254740992"
  unfolding fsub_def
  by (rule round64_eqI [where n = 53 and k = "9007109182748445", THEN trans]) simp_all

lemma ev11: "fmul (2251822331683385 / 2251799813685248) (2251822331683385 / 2251799813685248) = 1125922424953351 / 1125899906842624"
  unfolding fmul_def
  by (rule round64_eqI [where n = 52 and k = "4503689699813404", THEN trans]) simp_all

lemma ev12: "fmul (9007109182748445 / 9007199254740992) (9007109182748445 / 9007199254740992) = 4503509555828309 / 4503599627370496"
  unfolding fmul_def
  by (rule round64_eqI [where n = 53 and k = "9007019111656618", THEN trans]) simp_all

lemma ev13: "fsub (1125922424953351 / 1125899906842624) (4503509555828309 / 4503599627370496) = 180143985095 / 4503599627370496"
  unfolding fsub_def
  by (rule round64_eqI [where n = 67 and k = "5902958103592960", THEN trans]) simp_all

lemma ev14: "fdiv (180143985095 / 4503599627370496) (5902958103587057 / 295147905179352825856) = 562949953421875 / 281474976710656"
  unfolding fdiv_def
  by (rule round64_eqI [where n = 51 and k = "4503599627375000", THEN trans]) simp_all

lemma ev15: "fadd 3 (5902958103587057 / 590295810358705651712) = 6755421959053881 / 2251799813685248"
  unfolding fadd_def
  by (rule round64_eqI [where n = 51 and k = "6755421959053881", THEN trans]) simp_all

lemma ev16: "fsub 3 (5902958103587057 / 590295810358705651712) = 6755376923057607 / 2251799813685248"
  unfolding fsub_def
  by (rule round64_eqI [where n = 51 and k = "6755376923057607", THEN trans]) simp_all

lemma ev17: "fmul (6755421959053881 / 2251799813685248) (6755421959053881 / 2251799813685248) = 1266645839461327 / 140737488355328"
  unfolding fmul_def
  by (rule round64_eqI [where n = 49 and k = "5066583357845308", THEN trans]) simp_all

lemma ev18: "fmul (6755376923057607 / 2251799813685248) (6755376923057607 / 2251799813685248) = 5066515803850897 / 562949953421312"
  unfolding fmul_def
  by (rule round64_eqI [where n = 49 and k = "5066515803850897", THEN trans]) simp_all

lemma ev19: "fsub (1266645839461327 / 140737488355328) (5066515803850897 / 562949953421312) = 67553994411 / 562949953421312"
  unfolding fsub_def
  by (rule round64_eqI [where n = 66 and k = "8854437155438592", THEN trans]) simp_all

lemma ev20: "fdiv (67553994411 / 562949953421312) (5902958103587057 / 295147905179352825856) = 6755399441099999 / 1125899906842624"
  unfolding fdiv_def
  by (rule round64_eqI [where n = 50 and k = "6755399441099999", THEN trans]) simp_all

lemma ev21: "fmul 1 (6755399441099999 / 1125899906842624) = 6755399441099999 / 1125899906842624"
  unfolding fmul_def
  by (rule round64_eqI [where n = 50 and k = "6755399441099999", THEN trans]) simp_all

lemma ev22: "fmul (6755399441099999 / 1125899906842624) (6755399441099999 / 1125899906842624) = 5066549580858191 / 140737488355328"
  unfolding fmul_def
  by (rule round64_eqI [where n = 47 and k = "5066549580858191", THEN trans]) simp_all

lemma ev23: "fsub 3 (6755399441099999 / 1125899906842624) = - (3377699720572127 / 1125899906842624)"
  unfolding fsub_def
  by (rule round64_eqI [where n = 51 and k = "- 6755399441144254", THEN trans]) simp_all

lemma ev24: "fadd (- (3377699720572127 / 1125899906842624)) (5902958103587057 / 590295810358705651712) = - (6755376923146117 / 2251799813685248)"
  unfolding fadd_def
  by (rule round64_eqI [where n = 51 and k = "- 6755376923146117", THEN trans]) simp_all

lemma ev25: "fsub (- (3377699720572127 / 1125899906842624)) (5902958103587057 / 590295810358705651712) = - (6755421959142391 / 2251799813685248)"
  unfolding fsub_def
  by (rule round64_eqI [where n = 51 and k = "- 6755421959142391", THEN trans]) simp_all

lemma ev26: "fmul (- (6755376923146117 / 2251799813685248)) (- (6755376923146117 / 2251799813685248)) = 2533257901991831 / 281474976710656"
  unfolding fmul_def
  by (rule round64_eqI [where n = 49 and k = "5066515803983662", THEN trans]) simp_all

lemma ev27: "fmul (- (6755421959142391 / 2251799813685248)) (- (6755421959142391 / 2251799813685248)) = 2533291678989037 / 281474976710656"
  unfolding fmul_def
  by (rule round64_eqI [where n = 49 and k = "5066583357978074", THEN trans]) simp_all

lemma ev28: "fsub (2533257901991831 / 281474976710656) (2533291678989037 / 281474976710656) = - (16888498603 / 140737488355328)"
  unfolding fsub_def
  by (rule round64_eqI [where n = 66 and k = "- 8854437155569664", THEN trans]) simp_all

lemma ev29: "fdiv (- (16888498603 / 140737488355328)) (5902958103587057 / 295147905179352825856) = - (6755399441199999 / 1125899906842624)"
  unfolding fdiv_def
  by (rule round64_eqI [where n = 50 and k = "- 6755399441199999", THEN trans]) simp_all

lemma ev30: "fmul 1 (- (6755399441199999 / 1125899906842624)) = - (6755399441199999 / 1125899906842624)"
  unfolding fmul_def
  by (rule round64_eqI [where n = 50 and k = "- 6755399441199999", THEN trans]) simp_all

lemma ev31: "fmul (- (6755399441199999 / 1125899906842624)) (- (6755399441199999 / 1125899906842624)) = 5066549581008191 / 140737488355328"
  unfolding fmul_def
  by (rule round64_eqI [where n = 47 and k = "5066549581008191", THEN trans]) simp_all

lemma ev32: "fsub (- (3377699720572127 / 1125899906842624)) (- (6755399441199999 / 1125899906842624)) = 105553116269621 / 35184372088832"
  unfolding fsub_def
  by (rule round64_eqI [where n = 51 and k = "6755399441255744", THEN trans]) simp_all

lemma ev33: "fmul 2 0 = 0"
  by (simp add: fmul_def)

lemma ev34: "fmul (1 / 4) 0 = 0"
  by (simp add: fmul_def)

lemma ev35: "fmul 2 1 = 2"
  unfolding fmul_def
  by (rule round64_eqI [where n = 51 and k = "4503599627370496", THEN trans]) simp_all

lemma ev36: "fmul (1 / 4) 2 = 1 / 2"
  unfolding fmul_def
  by (rule round64_eqI [where n = 53 and k = "4503599627370496", THEN trans]) simp_all

lemma ev37: "fmul (1 / 2) (1 / 2) = 1 / 4"
  unfolding fmul_def
  by (rule round64_eqI [where n = 54 and k = "4503599627370496", THEN trans]) simp_all

lemma ev38: "fsub 1 (1 / 2) = 1 / 2"
  unfolding fsub_def
  by (rule round64_eqI [where n = 53 and k = "4503599627370496", THEN trans]) simp_all

lemma ev39: "round64 (1 / 2) = 1 / 2"
  by (rule round64_eqI [where n = 53 and k = "4503599627370496", THEN trans]) simp_all

lemma ev40: "fmul 2 (1 / 2) = 1"
  unfolding fmul_def
  by (rule round64_eqI [where n = 52 and k = "4503599627370496", THEN trans]) simp_all

lemma ev41: "fmul (1 / 4) 1 = 1 / 4"
  unfolding fmul_def
  by (rule round64_eqI [where n = 54 and k = "4503599627370496", THEN trans]) simp_all

lemma ev42: "fmul (1 / 4) (1 / 4) = 1 / 16"
  unfolding fmul_def
  by (rule round64_eqI [where n = 56 and k = "4503599627370496", THEN trans]) simp_all

lemma ev43: "fsub (1 / 2) (1 / 4) = 1 / 4"
  unfolding fsub_def
  by (rule round64_eqI [where n = 54 and k = "4503599627370496", THEN trans]) simp_all

lemma ev44: "round64 (1 / 4) = 1 / 4"
  by (rule round64_eqI [where n = 54 and k = "4503599627370496", THEN trans]) simp_all

lemma ev45: "fmul 1 2 = 2"
  unfolding fmul_def
  by (rule round64_eqI [where n = 51 and k = "4503599627370496", THEN trans]) simp_all

lemma ev46: "fmul 2 2 = 4"
  unfolding fmul_def
  by (rule round64_eqI [where n = 50 and k = "4503599627370496", THEN trans]) simp_all

lemma ev47: "fsub 1 2 = - 1"
  unfolding fsub_def
  by (rule round64_eqI [where n = 52 and k = "- 4503599627370496", THEN trans]) simp_all

lemma ev48: "fmul 2 (- 1) = - 2"
  unfolding fmul_def
  by (rule round64_eqI [where n = 51 and k = "- 4503599627370496", THEN trans]) simp_all

lemma ev49: "fmul 1 (- 2) = - 2"
  unfolding fmul_def
  by (rule round64_eqI [where n = 51 and k = "- 4503599627370496", THEN trans]) simp_all

lemma ev50: "fmul (- 2) (- 2) = 4"
  unfolding fmul_def
  by (rule round64_eqI [where n = 50 and k = "4503599627370496", THEN trans]) simp_all

lemma ev51: "fsub (- 1) (- 2) = 1"
  unfolding fsub_def
  by (rule round64_eqI [where n = 52 and k = "4503599627370496", THEN trans]) simp_all

lemma ev52: "round64 2 = 2"
  by (rule round64_eqI [where n = 51 and k = "4503599627370496", THEN trans]) simp_all

lemma ev53: "fmul 2 100 = 200"
  unfolding fmul_def
  by (rule round64_eqI [where n = 45 and k = "7036874417766400", THEN trans]) simp_all

lemma ev54: "fmul (1 / 1024) 200 = 25 / 128"
  unfolding fmul_def
  by (rule round64_eqI [where n = 55 and k = "7036874417766400", THEN trans]) simp_all

lemma ev55: "fmul (25 / 128) (25 / 128) = 625 / 16384"
  unfolding fmul_def
  by (rule round64_eqI [where n = 57 and k = "5497558138880000", THEN trans]) simp_all

lemma ev56: "fsub 100 (25 / 128) = 12775 / 128"
  unfolding fsub_def
  by (rule round64_eqI [where n = 46 and k = "7023130522419200", THEN trans]) simp_all

lemma ev57: "round64 (1 / 8) = 1 / 8"
  by (rule round64_eqI [where n = 55 and k = "4503599627370496", THEN trans]) simp_all

lemma ev58: "fmul 2 3 = 6"
  unfolding fmul_def
  by (rule round64_eqI [where n = 50 and k = "6755399441055744", THEN trans]) simp_all

lemma ev59: "fmul 1 3 = 3"
  unfolding fmul_def
  by (rule round64_eqI [where n = 51 and k = "6755399441055744", THEN trans]) simp_all

lemma ev60: "fmul 1 4 = 4"
  unfolding fmul_def
  by (rule round64_eqI [where n = 50 and k = "4503599627370496", THEN trans]) simp_all

lemma ev61: "fmul 3 3 = 9"
  unfolding fmul_def
  by (rule round64_eqI [where n = 49 and k = "5066549580791808", THEN trans]) simp_all

lemma ev62: "fmul 4 4 = 16"
  unfolding fmul_def
  by (rule round64_eqI [where n = 48 and k = "4503599627370496", THEN trans]) simp_all

lemma ev63: "fadd 9 16 = 25"
  unfolding fadd_def
  by (rule round64_eqI [where n = 48 and k = "7036874417766400", THEN trans]) simp_all

lemma ev64: "round64 5 = 5"
  by (rule round64_eqI [where n = 50 and k = "5629499534213120", THEN trans]) simp_all

lemma ev65: "fsub 5 3 = 2"
  unfolding fsub_def
  by (rule round64_eqI [where n = 51 and k = "4503599627370496", THEN trans]) simp_all

lemma ev66: "fsub 5 4 = 1"
  unfolding fsub_def
  by (rule round64_eqI [where n = 52 and k = "4503599627370496", THEN trans]) simp_all

lemma ev67: "round64 1 = 1"
  by (rule round64_eqI [where n = 52 and k = "4503599627370496", THEN trans]) simp_all

lemma ev68: "round64 3 = 3"
  by (rule round64_eqI [where n = 51 and k = "6755399441055744", THEN trans]) simp_all

lemmas eval64 = ev1 ev2 ev3 ev4 ev5 ev6 ev7 ev8 ev9 ev10 ev11 ev12 ev13 ev14 ev15 ev16 ev17 ev18 ev19 ev20 ev21 ev22 ev23 ev24 ev25 ev26 ev27 ev28 ev29 ev30 ev31 ev32 ev33 ev34 ev35 ev36 ev37 ev38 ev39 ev40 ev41 ev42 ev43 ev44 ev45 ev46 ev47 ev48 ev49 ev50 ev51 ev52 ev53 ev54 ev55 ev56 ev57 ev58 ev59 ev60 ev61 ev62 ev63 ev64 ev65 ev66 ev67 ev68

subsection \<open>Concrete iterations\<close>

declare for_loop.simps(2) [simp del]

text \<open>
  The gradient \<open>2x\<close> with \<open>lr = 0.25\<close> and \<open>eps = 0.125\<close>: at \<open>0\<close> the loop converges, from
  \<open>1\<close> it goes to \<open>[0.5]\<close> and on to \<open>[0.25]\<close>.
\<close>

lemma norm_zero: "linalg_norm (NDArray [0]) = 0"
  by (rule norm_eq) (simp_all add: dot64_single fmul_def)

lemma at_zero:
  "get_gradient \<lparr>func = None, grad_func = Some two_x\<rparr> (Float 0) = Inr (Float 0)"
  "step_delta (1 / 4) (Float 0) = NDArray [0]"
  by (simp_all add: step_delta_def eval64)

lemma at_one:
  "get_gradient \<lparr>func = None, grad_func = Some two_x\<rparr> (Float 1) = Inr (Float 2)"
  "step_delta (1 / 4) (Float 2) = NDArray [1 / 2]"
  "linalg_norm (NDArray [1 / 2]) = 1 / 2"
  "subtract (as_array (Float 1)) (NDArray [1 / 2]) = Inr (NDArray [1 / 2])"
proof -
  show "linalg_norm (NDArray [1 / 2]) = 1 / 2"
    by (rule norm_eq) (simp_all add: dot64_single eval64)
qed (simp_all add: step_delta_def eval64)

lemma at_half:
  "get_gradient \<lparr>func = None, grad_func = Some two_x\<rparr> (NDArray [1 / 2]) = Inr (NDArray [1])"
  "step_delta (1 / 4) (NDArray [1]) = NDArray [1 / 4]"
  "linalg_norm (NDArray [1 / 4]) = 1 / 4"
  "subtract (as_array (NDArray [1 / 2])) (NDArray [1 / 4]) = Inr (NDArray [1 / 4])"
proof -
  show "linalg_norm (NDArray [1 / 4]) = 1 / 4"
    by (rule norm_eq) (simp_all add: dot64_single eval64)
qed (simp_all add: step_delta_def eval64)

lemma run_from_zero:
  "for_loop \<lparr>func = None, grad_func = Some two_x\<rparr> (1 / 4) (1 / 8) (Suc n) i (Float 0) h =
     Inr (Float 0, h, Some i)"
  by (rule for_loop_break [OF at_zero(1)]) (simp add: at_zero(2) norm_zero)

lemma run_from_one:
  "for_loop \<lparr>func = None, grad_func = Some two_x\<rparr> (1 / 4) (1 / 8) (Suc n) i (Float 1) h =
     for_loop \<lparr>func = None, grad_func = Some two_x\<rparr> (1 / 4) (1 / 8) n (Suc i) (NDArray [1 / 2])
       (h @ [\<lparr>hist_x = NDArray [1 / 2], hist_grad = Float 2\<rparr>])"
  by (rule for_loop_step [OF at_one(1)]) (simp_all add: at_one eval64)

lemma run_from_half:
  "for_loop \<lparr>func = None, grad_func = Some two_x\<rparr> (1 / 4) (1 / 8) (Suc n) i (NDArray [1 / 2]) h =
     for_loop \<lparr>func = None, grad_func = Some two_x\<rparr> (1 / 4) (1 / 8) n (Suc i) (NDArray [1 / 4])
       (h @ [\<lparr>hist_x = NDArray [1 / 4], hist_grad = NDArray [1]\<rparr>])"
  by (rule for_loop_step [OF at_half(1)]) (simp_all add: at_half eval64)

lemma one_update:
  "fst (optimize \<lparr>func = None, grad_func = Some two_x\<rparr> (Some (Float 1)) (1 / 4) 1 (1 / 8)
          None world0)
     = Inr (NDArray [1 / 2], [\<lparr>hist_x = NDArray [1 / 2], hist_grad = Float 2\<rparr>])"
  by (simp add: optimize_Some_start run_from_one)

lemma two_updates:
  "fst (optimize \<lparr>func = None, grad_func = Some two_x\<rparr> (Some (Float 1)) (1 / 4) 2 (1 / 8)
          None world0)
     = Inr (NDArray [1 / 4],
         [\<lparr>hist_x = NDArray [1 / 2], hist_grad = Float 2\<rparr>,
          \<lparr>hist_x = NDArray [1 / 4], hist_grad = NDArray [1]\<rparr>])"
  by (simp add: optimize_Some_start numeral_2_eq_2 run_from_one run_from_half)

text \<open>The central difference of \<open>x\<^sup>2\<close> at \<open>1\<close>, \<open>2\<close> and \<open>3\<close>, in binary64.\<close>

lemma central_difference_at_1_2:
  "get_gradient \<lparr>func = Some square, grad_func = None\<rparr> (Float 2) =
     Inr (Float (70368744178125 / 17592186044416))"
  "get_gradient \<lparr>func = Some square, grad_func = None\<rparr> (NDArray [1, 2]) =
     Inr (NDArray [562949953421875 / 281474976710656, 70368744178125 / 17592186044416])"
  by (simp_all add: square_gradient eval64)



text \<open>The constant gradient \<open>[3, 4]\<close> with \<open>lr = 1\<close>: the step is \<open>[3, 4]\<close>, of norm \<open>5\<close>.\<close>

lemma three_four_step:
  "get_gradient \<lparr>func = None, grad_func = Some three_four\<rparr> v = Inr (NDArray [3, 4])"
  "step_delta 1 (NDArray [3, 4]) = NDArray [3, 4]"
  "linalg_norm (NDArray [3, 4]) = 5"
proof -
  show "linalg_norm (NDArray [3, 4]) = 5"
    by (rule norm_eq) (simp_all add: dot64_pair eval64)
qed (simp_all add: get_gradient_def three_four_def step_delta_def eval64)


text \<open>Whole runs used below.\<close>

lemma converges_at_zero:
  assumes "0 < eps" "0 < n"
  shows "for_loop \<lparr>func = None, grad_func = Some two_x\<rparr> lr eps n i (Float 0) h =
     Inr (Float 0, h, Some i)"
proof -
  from assms(2) obtain m where n: "n = Suc m" by (cases n) auto
  have g: "get_gradient \<lparr>func = None, grad_func = Some two_x\<rparr> (Float 0) = Inr (Float 0)"
    by (rule at_zero)
  have "step_delta lr (Float 0) = NDArray [0]" by (simp add: step_delta_def fmul_def)
  with assms(1) have "linalg_norm (step_delta lr (Float 0)) < eps" by (simp add: norm_zero)
  from for_loop_break [OF g this] show ?thesis unfolding n .
qed



lemma broadcast_widens:
  "for_loop \<lparr>func = None, grad_func = Some three_four\<rparr> 1 (1 / 8) (Suc 0) 0 (Float 5) [] =
     Inr (NDArray [2, 1], [\<lparr>hist_x = NDArray [2, 1], hist_grad = NDArray [3, 4]\<rparr>], None)"
proof -
  have "for_loop \<lparr>func = None, grad_func = Some three_four\<rparr> 1 (1 / 8) (Suc 0) 0 (Float 5) [] =
      for_loop \<lparr>func = None, grad_func = Some three_four\<rparr> 1 (1 / 8) 0 (Suc 0) (NDArray [2, 1])
        ([] @ [\<lparr>hist_x = NDArray [2, 1], hist_grad = NDArray [3, 4]\<rparr>])"
    by (rule for_loop_step [OF three_four_step(1)]) (simp_all add: three_four_step eval64)
  then show ?thesis by simp
qed

section \<open>The claims\<close>

text \<open>
  C1. In every iteration of \<open>optimize\<close> the gradient is acquired at the current \<open>x\<close> and
  \<open>delta = lr * gradient\<close> is computed. If the Euclidean norm of \<open>delta\<close> is strictly below
  \<open>eps\<close>, the loop stops at once: \<open>x\<close> and the history are returned as they were. Otherwise
  \<open>x\<close> becomes \<open>x - delta\<close>, an entry with the new \<open>x\<close> and the gradient used is appended to
  the history, and the loop goes on. Hence whatever a call returns is a chain of such
  updates from the starting point, and the call stopped either after \<open>max_iter\<close> updates or
  at a point whose step is below \<open>eps\<close>.
\<close>

theorem iteration_converges_or_updates:
  "(get_gradient self x = Inr grad \<and> linalg_norm (step_delta lr grad) < eps \<longrightarrow>
      for_loop self lr eps (Suc n) i x history = Inr (x, history, Some i)) \<and>
   (get_gradient self x = Inr grad \<and> \<not> linalg_norm (step_delta lr grad) < eps \<and>
    subtract (as_array x) (step_delta lr grad) = Inr x' \<longrightarrow>
      for_loop self lr eps (Suc n) i x history =
        for_loop self lr eps n (Suc i) x' (history @ [\<lparr>hist_x = x', hist_grad = grad\<rparr>])) \<and>
   (initial_point start shape w = (Inr x0, w1) \<and>
    fst (optimize self start lr max_iter eps shape w) = Inr (xf, h) \<longrightarrow>
      descent_chain self lr eps x0 h xf \<and>
      (length h = nat max_iter \<or>
       length h < nat max_iter \<and>
         (\<exists>g. get_gradient self xf = Inr g \<and> linalg_norm (step_delta lr g) < eps)))"
proof (intro conjI impI)
  assume "get_gradient self x = Inr grad \<and> linalg_norm (step_delta lr grad) < eps"
  then show "for_loop self lr eps (Suc n) i x history = Inr (x, history, Some i)"
    by (simp add: for_loop_break)
next
  assume "get_gradient self x = Inr grad \<and> \<not> linalg_norm (step_delta lr grad) < eps \<and>
    subtract (as_array x) (step_delta lr grad) = Inr x'"
  then show "for_loop self lr eps (Suc n) i x history =
        for_loop self lr eps n (Suc i) x' (history @ [\<lparr>hist_x = x', hist_grad = grad\<rparr>])"
    by (simp add: for_loop_step)
next
  assume a: "initial_point start shape w = (Inr x0, w1) \<and>
    fst (optimize self start lr max_iter eps shape w) = Inr (xf, h)"
  then obtain c where "for_loop self lr eps (nat max_iter) 0 x0 [] = Inr (xf, h, c)"
    using optimize_returns by blast
  from for_loop_chain [OF this] have
    ch: "descent_chain self lr eps x0 h xf" and
    c: "(case c of None \<Rightarrow> length h = nat max_iter
        | Some j \<Rightarrow> j = 0 + length h \<and> length h < nat max_iter \<and>
          (\<exists>g. get_gradient self xf = Inr g \<and> linalg_norm (step_delta lr g) < eps))"
    by auto
  from ch show "descent_chain self lr eps x0 h xf" .
  from c show "length h = nat max_iter \<or>
       length h < nat max_iter \<and>
         (\<exists>g. get_gradient self xf = Inr g \<and> linalg_norm (step_delta lr g) < eps)"
    by (cases c) auto
qed

theorem iteration_converges_or_updates_witness:
  "for_loop \<lparr>func = None, grad_func = Some two_x\<rparr> (1 / 4) (1 / 8) (Suc 0) 0 (Float 0) []
     = Inr (Float 0, [], Some 0) \<and>
   for_loop \<lparr>func = None, grad_func = Some two_x\<rparr> (1 / 4) (1 / 8) (Suc 0) 0 (Float 1) []
     = Inr (NDArray [1 / 2], [\<lparr>hist_x = NDArray [1 / 2], hist_grad = Float 2\<rparr>], None) \<and>
   fst (optimize \<lparr>func = None, grad_func = Some two_x\<rparr> (Some (Float 1)) (1 / 4) 1 (1 / 8)
          None world0)
     = Inr (NDArray [1 / 2], [\<lparr>hist_x = NDArray [1 / 2], hist_grad = Float 2\<rparr>]) \<and>
   descent_chain \<lparr>func = None, grad_func = Some two_x\<rparr> (1 / 4) (1 / 8) (Float 1)
     [\<lparr>hist_x = NDArray [1 / 2], hist_grad = Float 2\<rparr>] (NDArray [1 / 2])"
proof -
  let ?gd = "\<lparr>func = None, grad_func = Some two_x\<rparr>"
  let ?r = "\<lparr>hist_x = NDArray [1 / 2], hist_grad = Float 2\<rparr>"
  have a: "get_gradient ?gd (Float 0) = Inr (Float 0) \<and>
      linalg_norm (step_delta (1 / 4) (Float 0)) < 1 / 8"
    by (simp add: at_zero norm_zero eval64)
  have b: "get_gradient ?gd (Float 1) = Inr (Float 2) \<and>
      \<not> linalg_norm (step_delta (1 / 4) (Float 2)) < 1 / 8 \<and>
      subtract (as_array (Float 1)) (step_delta (1 / 4) (Float 2)) = Inr (NDArray [1 / 2])"
    using at_one by (simp add: eval64)
  have c: "initial_point (Some (Float 1)) None world0 = (Inr (Float 1), world0) \<and>
      fst (optimize ?gd (Some (Float 1)) (1 / 4) 1 (1 / 8) None world0) = Inr (NDArray [1 / 2], [?r])"
    by (simp add: initial_point_def one_update)
  from a iteration_converges_or_updates [where self = ?gd and x = "Float 0" and grad = "Float 0"
      and lr = "1 / 4" and eps = "1 / 8" and n = 0 and i = 0 and history = "[]"]
  have 1: "for_loop ?gd (1 / 4) (1 / 8) (Suc 0) 0 (Float 0) [] = Inr (Float 0, [], Some 0)"
    by blast
  from b iteration_converges_or_updates [where self = ?gd and x = "Float 1" and grad = "Float 2"
      and lr = "1 / 4" and eps = "1 / 8" and n = 0 and i = 0 and history = "[]"
      and x' = "NDArray [1 / 2]"]
  have "for_loop ?gd (1 / 4) (1 / 8) (Suc 0) 0 (Float 1) [] =
      for_loop ?gd (1 / 4) (1 / 8) 0 (Suc 0) (NDArray [1 / 2]) ([] @ [?r])"
    by blast
  then have 2: "for_loop ?gd (1 / 4) (1 / 8) (Suc 0) 0 (Float 1) [] = Inr (NDArray [1 / 2], [?r], None)"
    by simp
  from c iteration_converges_or_updates [where self = ?gd and lr = "1 / 4" and eps = "1 / 8"
      and start = "Some (Float 1)" and shape = None and w = world0 and ?x0.0 = "Float 1" and ?w1.0 = world0
      and max_iter = 1 and xf = "NDArray [1 / 2]" and h = "[?r]"]
  have 3: "descent_chain ?gd (1 / 4) (1 / 8) (Float 1) [?r] (NDArray [1 / 2])"
    by blast
  from 1 2 3 c show ?thesis by blast
qed

text \<open>
  C2. For an optimizer that was constructed, gradient acquisition at \<open>x\<close> returns
  \<open>grad_func(x)\<close> when a gradient function was supplied. When none was supplied the
  objective is present, and the result is the central difference
  \<open>(func(x + 1e-5) - func(x - 1e-5)) / (2 * 1e-5)\<close>; for an objective that acts element by
  element this is the central difference of every element of \<open>x\<close>.
\<close>

theorem gradient_acquisition:
  "init fo go = Inr self \<longrightarrow>
   (\<forall>g. go = Some g \<longrightarrow> get_gradient self x = g x) \<and>
   (go = None \<longrightarrow>
      (\<exists>f. fo = Some f \<and>
        (\<forall>fp fm d. f (elementwise (\<lambda>a. fadd a (round64 (1 / 100000))) x) = Inr fp \<and>
            f (elementwise (\<lambda>a. fsub a (round64 (1 / 100000))) x) = Inr fm \<and>
            subtract fp fm = Inr d \<longrightarrow>
            get_gradient self x =
              Inr (elementwise (\<lambda>a. fdiv a (fmul 2 (round64 (1 / 100000)))) d)) \<and>
        (\<forall>\<phi>. f = (\<lambda>v. Inr (elementwise \<phi> v)) \<longrightarrow>
            get_gradient self x =
              Inr (elementwise
                (\<lambda>a. fdiv
                   (fsub (\<phi> (fadd a (round64 (1 / 100000)))) (\<phi> (fsub a (round64 (1 / 100000)))))
                   (fmul 2 (round64 (1 / 100000)))) x))))"
proof (intro impI conjI allI)
  fix g assume "init fo go = Inr self" "go = Some g"
  then show "get_gradient self x = g x"
    by (auto simp: init_def get_gradient_def split: if_splits)
next
  assume i: "init fo go = Inr self" and n: "go = None"
  then obtain f where f: "fo = Some f" and self: "self = \<lparr>func = Some f, grad_func = None\<rparr>"
    by (cases fo) (auto simp: init_def)
  have 1: "get_gradient self x = Inr (elementwise (\<lambda>a. fdiv a (fmul 2 (round64 (1 / 100000)))) d)"
    if "f (elementwise (\<lambda>a. fadd a (round64 (1 / 100000))) x) = Inr fp \<and>
        f (elementwise (\<lambda>a. fsub a (round64 (1 / 100000))) x) = Inr fm \<and>
        subtract fp fm = Inr d" for fp fm d
    using that self by (simp add: get_gradient_def Let_def)
  have 2: "get_gradient self x =
      Inr (elementwise
        (\<lambda>a. fdiv
           (fsub (\<phi> (fadd a (round64 (1 / 100000)))) (\<phi> (fsub a (round64 (1 / 100000)))))
           (fmul 2 (round64 (1 / 100000)))) x)"
    if "f = (\<lambda>v. Inr (elementwise \<phi> v))" for \<phi>
    using that self by (simp add: get_gradient_elementwise)
  from f 1 2 show "\<exists>f. fo = Some f \<and>
        (\<forall>fp fm d. f (elementwise (\<lambda>a. fadd a (round64 (1 / 100000))) x) = Inr fp \<and>
            f (elementwise (\<lambda>a. fsub a (round64 (1 / 100000))) x) = Inr fm \<and>
            subtract fp fm = Inr d \<longrightarrow>
            get_gradient self x =
              Inr (elementwise (\<lambda>a. fdiv a (fmul 2 (round64 (1 / 100000)))) d)) \<and>
        (\<forall>\<phi>. f = (\<lambda>v. Inr (elementwise \<phi> v)) \<longrightarrow>
            get_gradient self x =
              Inr (elementwise
                (\<lambda>a. fdiv
                   (fsub (\<phi> (fadd a (round64 (1 / 100000)))) (\<phi> (fsub a (round64 (1 / 100000)))))
                   (fmul 2 (round64 (1 / 100000)))) x))"
    by blast
qed

theorem gradient_acquisition_witness:
  "init None (Some two_x) = Inr \<lparr>func = None, grad_func = Some two_x\<rparr> \<and>
   get_gradient \<lparr>func = None, grad_func = Some two_x\<rparr> (Float 3) = Inr (Float 6) \<and>
   init (Some square) None = Inr \<lparr>func = Some square, grad_func = None\<rparr> \<and>
   get_gradient \<lparr>func = Some square, grad_func = None\<rparr> (NDArray [1, 2]) =
     Inr (NDArray [562949953421875 / 281474976710656, 70368744178125 / 17592186044416])"
proof -
  have i1: "init None (Some two_x) = Inr \<lparr>func = None, grad_func = Some two_x\<rparr>"
    and i2: "init (Some square) None = Inr \<lparr>func = Some square, grad_func = None\<rparr>"
    by (simp_all add: init_def)
  have sq: "square = (\<lambda>v. Inr (elementwise (\<lambda>a. fmul a a) v))"
    by (simp add: square_def fun_eq_iff)
  from gradient_acquisition [of None "Some two_x" _ "Float 3"] i1
  have "get_gradient \<lparr>func = None, grad_func = Some two_x\<rparr> (Float 3) = two_x (Float 3)"
    by blast
  then have 1: "get_gradient \<lparr>func = None, grad_func = Some two_x\<rparr> (Float 3) = Inr (Float 6)"
    by (simp add: two_x_def eval64)
  from gradient_acquisition [of "Some square" None _ "NDArray [1, 2]"] i2 sq
  have "get_gradient \<lparr>func = Some square, grad_func = None\<rparr> (NDArray [1, 2]) =
      Inr (elementwise
        (\<lambda>a. fdiv
           (fsub (fmul (fadd a (round64 (1 / 100000))) (fadd a (round64 (1 / 100000))))
              (fmul (fsub a (round64 (1 / 100000))) (fsub a (round64 (1 / 100000)))))
           (fmul 2 (round64 (1 / 100000)))) (NDArray [1, 2]))"
    by blast
  then have 2: "get_gradient \<lparr>func = Some square, grad_func = None\<rparr> (NDArray [1, 2]) =
      Inr (NDArray [562949953421875 / 281474976710656, 70368744178125 / 17592186044416])"
    by (simp add: eval64)
  from i1 i2 1 2 show ?thesis by blast
qed

text \<open>
  C3. Construction fails exactly when the objective and the gradient function are both
  absent, with the \<^verbatim>\<open>ValueError\<close> of the constructor; in every other case it succeeds and
  stores the two references as they are, whatever the callables would do when called.
\<close>

theorem construction_fails_iff_both_absent:
  "(isl (init f g) \<longleftrightarrow> f = None \<and> g = None) \<and>
   init None None = Inl (ValueError ''Either func or grad_func must be provided'') \<and>
   (f \<noteq> None \<or> g \<noteq> None \<longrightarrow> init f g = Inr \<lparr>func = f, grad_func = g\<rparr>)"
  by (auto simp: init_def)

theorem construction_fails_iff_both_absent_witness:
  "init (Some raising) None = Inr \<lparr>func = Some raising, grad_func = None\<rparr> \<and>
   init None (Some raising) = Inr \<lparr>func = None, grad_func = Some raising\<rparr> \<and>
   \<not> isl (init (Some raising) (Some raising)) \<and>
   isl (init None None)"
  using construction_fails_iff_both_absent [of "Some raising" None]
    construction_fails_iff_both_absent [of None "Some raising"]
    construction_fails_iff_both_absent [of "Some raising" "Some raising"]
    construction_fails_iff_both_absent [of None None]
  by simp







text \<open>
  C6, as amended. With a bare float as the starting point, the representation of the
  returned point depends on the path taken. If the step of the very first iteration has
  a norm strictly below \<open>eps\<close>, the float is returned as it was given, with an empty
  history; a call that returns an empty history returns that float. As soon as one
  update has been applied (the history is not empty) the returned point is an array, and
  it has exactly one element when the gradient of a one-element point has one element.
\<close>

theorem scalar_start_representation:
  "(0 < max_iter \<and> get_gradient self (Float s) = Inr g \<and> linalg_norm (step_delta lr g) < eps \<longrightarrow>
      fst (optimize self (Some (Float s)) lr max_iter eps shape w) = Inr (Float s, [])) \<and>
   (fst (optimize self (Some (Float s)) lr max_iter eps shape w) = Inr (x, h) \<longrightarrow>
      (h = [] \<longrightarrow> x = Float s) \<and>
      (h \<noteq> [] \<longrightarrow> (\<exists>ys. x = NDArray ys)) \<and>
      (h \<noteq> [] \<and> (\<forall>v g'. numel v = 1 \<longrightarrow> get_gradient self v = Inr g' \<longrightarrow> numel g' = 1) \<longrightarrow>
         (\<exists>y. x = NDArray [y])))"
proof (intro conjI impI)
  assume a: "0 < max_iter \<and> get_gradient self (Float s) = Inr g \<and> linalg_norm (step_delta lr g) < eps"
  then obtain n where "nat max_iter = Suc n" by (cases "nat max_iter") auto
  with a show "fst (optimize self (Some (Float s)) lr max_iter eps shape w) = Inr (Float s, [])"
    by (simp add: optimize_Some_start for_loop_break)
next
  assume r: "fst (optimize self (Some (Float s)) lr max_iter eps shape w) = Inr (x, h)"
  note ch = optimize_chain [OF r]
  show "x = Float s" if "h = []" using ch that by simp
  show "\<exists>ys. x = NDArray ys" if "h \<noteq> []" using chain_end_array [OF ch that] .
  show "\<exists>y. x = NDArray [y]"
    if c: "h \<noteq> [] \<and> (\<forall>v g'. numel v = 1 \<longrightarrow> get_gradient self v = Inr g' \<longrightarrow> numel g' = 1)"
  proof -
    from c have "numel x = 1" using chain_numel [OF _ ch] by simp
    moreover from c obtain ys where "x = NDArray ys" using chain_end_array [OF ch] by blast
    ultimately show ?thesis by (auto simp: length_Suc_conv)
  qed
qed

theorem scalar_start_representation_witness:
  "fst (optimize \<lparr>func = None, grad_func = Some two_x\<rparr> (Some (Float 0)) (1 / 4) 100 (1 / 8)
        None world0) = Inr (Float 0, []) \<and>
   fst (optimize \<lparr>func = None, grad_func = Some two_x\<rparr> (Some (Float 1)) (1 / 4) 1 (1 / 8)
        None world0)
     = Inr (NDArray [1 / 2], [\<lparr>hist_x = NDArray [1 / 2], hist_grad = Float 2\<rparr>]) \<and>
   (\<exists>y. NDArray [1 / 2] = NDArray [y])"
proof -
  let ?gd = "\<lparr>func = None, grad_func = Some two_x\<rparr>"
  let ?r = "\<lparr>hist_x = NDArray [1 / 2], hist_grad = Float 2\<rparr>"
  have a: "(0::int) < 100 \<and> get_gradient ?gd (Float 0) = Inr (Float 0) \<and>
      linalg_norm (step_delta (1 / 4) (Float 0)) < 1 / 8"
    by (simp add: at_zero norm_zero eval64)
  have b: "fst (optimize ?gd (Some (Float 1)) (1 / 4) 1 (1 / 8) None world0) = Inr (NDArray [1 / 2], [?r])"
    by (rule one_update)
  have c: "[?r] \<noteq> [] \<and> (\<forall>v g'. numel v = 1 \<longrightarrow> get_gradient ?gd v = Inr g' \<longrightarrow> numel g' = 1)"
  proof -
    have "numel (elementwise f v) = numel v" for f v by (cases v) simp_all
    then show ?thesis by auto
  qed
  from scalar_start_representation [where max_iter = 100 and self = ?gd and s = 0
      and g = "Float 0" and lr = "1 / 4" and eps = "1 / 8" and shape = None and w = world0] a
  have 1: "fst (optimize ?gd (Some (Float 0)) (1 / 4) 100 (1 / 8) None world0) = Inr (Float 0, [])"
    by blast
  from scalar_start_representation [where max_iter = 1 and self = ?gd and s = 1
      and lr = "1 / 4" and eps = "1 / 8" and shape = None and w = world0
      and x = "NDArray [1 / 2]" and h = "[?r]"] b c
  have 2: "\<exists>y. NDArray [1 / 2] = NDArray [y]"
    by blast
  from 1 2 b show ?thesis by blast
qed

text \<open>
  C6 as it was stated fails: from the float \<open>5.0\<close>, with a gradient of two elements, one
  update is applied and the returned point is an array of two elements.
\<close>

theorem scalar_start_widens_counterexample:
  "fst (optimize \<lparr>func = None, grad_func = Some three_four\<rparr> (Some (Float 5)) 1 1 (1 / 8)
      None world0)
     = Inr (NDArray [2, 1], [\<lparr>hist_x = NDArray [2, 1], hist_grad = NDArray [3, 4]\<rparr>]) \<and>
   numel (NDArray [2, 1]) = 2"
  by (simp add: optimize_Some_start broadcast_widens)

text \<open>
  C7, as amended. When \<open>start\<close> is given, a call that returns appends exactly one status
  line to the standard output and changes nothing else, and a call that raises changes
  nothing. When \<open>start\<close> is absent the call also takes samples from the process-wide
  random generator, whose state it advances: by one sample without \<open>shape\<close>, by \<open>n\<close>
  samples with the shape \<open>(n,)\<close>; the standard output again grows by exactly one line
  when the call returns and by none when it raises.
\<close>

theorem side_effects_of_optimize:
  "(case for_loop self lr eps (nat max_iter) 0 s [] of
      Inl e \<Rightarrow> optimize self (Some s) lr max_iter eps shape w = (Inl e, w)
    | Inr (x, h, c) \<Rightarrow>
        optimize self (Some s) lr max_iter eps shape w =
          (Inr (x, h),
           w\<lparr>stdout := stdout w @
              [case c of
                 Some i \<Rightarrow> ''Converged in '' @ str_nat i @ '' iterations. Breaking...''
               | None \<Rightarrow> ''Not converged after '' @ str_int max_iter @ '' iterations.'']\<rparr>)) \<and>
   random_state (snd (optimize self None lr max_iter eps None w)) = (\<lambda>k. random_state w (Suc k)) \<and>
   random_state (snd (optimize self None lr max_iter eps (Some n) w)) =
     (if n < 0 then random_state w else (\<lambda>k. random_state w (k + nat n))) \<and>
   (case fst (optimize self None lr max_iter eps shape w) of
      Inl e \<Rightarrow> stdout (snd (optimize self None lr max_iter eps shape w)) = stdout w
    | Inr res \<Rightarrow>
        (\<exists>line. stdout (snd (optimize self None lr max_iter eps shape w)) = stdout w @ [line]))"
proof (intro conjI)
  show "case for_loop self lr eps (nat max_iter) 0 s [] of
      Inl e \<Rightarrow> optimize self (Some s) lr max_iter eps shape w = (Inl e, w)
    | Inr (x, h, c) \<Rightarrow>
        optimize self (Some s) lr max_iter eps shape w =
          (Inr (x, h),
           w\<lparr>stdout := stdout w @
              [case c of
                 Some i \<Rightarrow> ''Converged in '' @ str_nat i @ '' iterations. Breaking...''
               | None \<Rightarrow> ''Not converged after '' @ str_int max_iter @ '' iterations.'']\<rparr>)"
    by (simp add: optimize_Some_start print_def split: sum.splits option.splits prod.splits)
next
  have "initial_point None None w =
      (Inr (Float (random_state w 0)), w\<lparr>random_state := (\<lambda>k. random_state w (Suc k))\<rparr>)"
    by (simp add: initial_point_def)
  from optimize_world [OF this]
  show "random_state (snd (optimize self None lr max_iter eps None w)) = (\<lambda>k. random_state w (Suc k))"
    by simp
next
  obtain r w1 where ip: "initial_point None (Some n) w = (r, w1)"
    by (cases "initial_point None (Some n) w")
  then have "random_state w1 = (if n < 0 then random_state w else (\<lambda>k. random_state w (k + nat n)))"
    by (auto simp: initial_point_def split: if_splits)
  with optimize_world [OF ip]
  show "random_state (snd (optimize self None lr max_iter eps (Some n) w)) =
     (if n < 0 then random_state w else (\<lambda>k. random_state w (k + nat n)))"
    by simp
next
  obtain r w1 where ip: "initial_point None shape w = (r, w1)"
    by (cases "initial_point None shape w")
  then have sw: "stdout w1 = stdout w"
    by (auto simp: initial_point_def split: if_splits option.splits)
  from optimize_world [OF ip, of self lr max_iter eps]
  have "case fst (optimize self None lr max_iter eps shape w) of
      Inl e \<Rightarrow> stdout (snd (optimize self None lr max_iter eps shape w)) = stdout w1
    | Inr res \<Rightarrow>
        (\<exists>line. stdout (snd (optimize self None lr max_iter eps shape w)) = stdout w1 @ [line])"
    by (rule conjunct2)
  then show "case fst (optimize self None lr max_iter eps shape w) of
      Inl e \<Rightarrow> stdout (snd (optimize self None lr max_iter eps shape w)) = stdout w
    | Inr res \<Rightarrow>
        (\<exists>line. stdout (snd (optimize self None lr max_iter eps shape w)) = stdout w @ [line])"
    by (simp only: sw)
qed

theorem side_effects_of_optimize_witness:
  "optimize \<lparr>func = None, grad_func = Some two_x\<rparr> (Some (Float 0)) (1 / 4) 100 (1 / 10) None world0
     = (Inr (Float 0, []), world0\<lparr>stdout := [''Converged in 0 iterations. Breaking...'']\<rparr>) \<and>
   random_state (snd (optimize \<lparr>func = None, grad_func = Some two_x\<rparr> None (1 / 4) 100 (1 / 10)
     (Some 3) world0)) 0 = 3"
proof -
  let ?gd = "\<lparr>func = None, grad_func = Some two_x\<rparr>"
  have l: "for_loop ?gd (1 / 4) (1 / 10) (nat 100) 0 (Float 0) [] = Inr (Float 0, [], Some 0)"
    by (rule converges_at_zero) simp_all
  from side_effects_of_optimize [where self = ?gd and lr = "1 / 4" and eps = "1 / 10"
      and max_iter = 100 and s = "Float 0" and shape = None and w = world0 and n = 3] l
  have "optimize ?gd (Some (Float 0)) (1 / 4) 100 (1 / 10) None world0
     = (Inr (Float 0, []),
        world0\<lparr>stdout := stdout world0 @ [''Converged in '' @ str_nat 0 @ '' iterations. Breaking...'']\<rparr>)"
    and "random_state (snd (optimize ?gd None (1 / 4) 100 (1 / 10) (Some 3) world0)) =
     (\<lambda>k. random_state world0 (k + nat 3))"
    by simp_all
  then show ?thesis
    by (simp add: str_nat_digit world0_def)
qed

text \<open>
  C7 as it was stated fails: a call without \<open>start\<close> leaves the process-wide random
  generator in another state than it found it.
\<close>

theorem random_start_advances_generator_counterexample:
  "random_state (snd (optimize \<lparr>func = None, grad_func = Some two_x\<rparr> None (1 / 10) 100
      (1 / 1000000) None world0)) \<noteq> random_state world0"
proof -
  have ip: "initial_point None None world0 =
      (Inr (Float (random_state world0 0)),
       world0\<lparr>random_state := (\<lambda>k. random_state world0 (Suc k))\<rparr>)"
    by (simp add: initial_point_def)
  from optimize_world [OF ip]
  have "random_state (snd (optimize \<lparr>func = None, grad_func = Some two_x\<rparr> None (1 / 10) 100
      (1 / 1000000) None world0)) 0 = 1"
    by (simp add: world0_def)
  moreover have "random_state world0 0 = 0" by (simp add: world0_def)
  ultimately show ?thesis by (metis zero_neq_one)
qed




text \<open>
  C9. Constructed with the objective \<open>x\<^sup>2\<close> alone, the optimizer's gradient acquisition at
  \<open>x = 2\<close> returns a value within \<open>1e-3\<close> of \<open>4\<close>: in binary64 it is the double
  \<open>4.000000000026205\<close>.
\<close>

theorem finite_difference_square_at_2:
  "\<exists>self g. init (Some square) None = Inr self \<and>
     get_gradient self (Float 2) = Inr (Float g) \<and> \<bar>g - 4\<bar> \<le> 1 / 1000 \<and>
     g = 70368744178125 / 17592186044416"
proof -
  have "init (Some square) None = Inr \<lparr>func = Some square, grad_func = None\<rparr> \<and>
     get_gradient \<lparr>func = Some square, grad_func = None\<rparr> (Float 2) =
       Inr (Float (70368744178125 / 17592186044416)) \<and>
     \<bar>70368744178125 / 17592186044416 - 4 :: real\<bar> \<le> 1 / 1000 \<and>
     (70368744178125 / 17592186044416 :: real) = 70368744178125 / 17592186044416"
    by (simp add: init_def central_difference_at_1_2)
  then show ?thesis by blast
qed

text \<open>
  C10. When \<open>optimize\<close> returns a history that is not empty, the point it returns is the
  \<open>x\<close> of the last entry, and the \<open>x\<close> of every entry after the first is the \<open>x\<close> of the
  entry before it minus \<open>lr\<close> times its own \<open>grad\<close>.
\<close>

theorem history_chain_consistent:
  assumes ret: "fst (optimize self start lr max_iter eps shape w) = Inr (x, h)"
    and ne: "h \<noteq> []"
  shows "x = hist_x (last h) \<and>
    (\<forall>k. 0 < k \<and> k < length h \<longrightarrow>
       subtract (hist_x (h ! (k - 1))) (elementwise (\<lambda>g. fmul lr g) (hist_grad (h ! k)))
         = Inr (hist_x (h ! k)))"
proof -
  obtain r w1 where ip: "initial_point start shape w = (r, w1)" by (cases "initial_point start shape w")
  with ret obtain x0 where r: "r = Inr x0"
    by (cases r) (auto simp: optimize_def)
  from optimize_returns [OF ip [unfolded r] ret] obtain c where
    "for_loop self lr eps (nat max_iter) 0 x0 [] = Inr (x, h, c)" ..
  from for_loop_chain [OF this] have ch: "descent_chain self lr eps x0 h x" by auto
  have "x = hist_x (last h)"
    using chain_last [OF ch] ne by (simp add: last_map)
  moreover have "subtract (hist_x (h ! (k - 1))) (elementwise (\<lambda>g. fmul lr g) (hist_grad (h ! k)))
         = Inr (hist_x (h ! k))" if k: "0 < k" "k < length h" for k
  proof -
    from k obtain m where m: "k = Suc m" by (cases k) auto
    with k have "m < length h" by simp
    from chain_arrays [OF ch this] obtain ys where ys: "hist_x (h ! m) = NDArray ys" ..
    from chain_nth [OF ch k(2)] m k
    have "subtract (as_array (hist_x (h ! m))) (step_delta lr (hist_grad (h ! k))) = Inr (hist_x (h ! k))"
      by simp
    then show ?thesis
      using ys m by (simp add: step_delta_def subtract_promoted)
  qed
  ultimately show ?thesis by blast
qed

theorem history_chain_consistent_witness:
  "fst (optimize \<lparr>func = None, grad_func = Some two_x\<rparr> (Some (Float 1)) (1 / 4) 2 (1 / 8)
          None world0)
     = Inr (NDArray [1 / 4],
         [\<lparr>hist_x = NDArray [1 / 2], hist_grad = Float 2\<rparr>,
          \<lparr>hist_x = NDArray [1 / 4], hist_grad = NDArray [1]\<rparr>]) \<and>
   NDArray [1 / 4] = hist_x (last
         [\<lparr>hist_x = NDArray [1 / 2], hist_grad = Float 2\<rparr>,
          \<lparr>hist_x = NDArray [1 / 4], hist_grad = NDArray [1]\<rparr>]) \<and>
   subtract (NDArray [1 / 2]) (elementwise (\<lambda>g. fmul (1 / 4) g) (NDArray [1])) = Inr (NDArray [1 / 4])"
proof -
  let ?gd = "\<lparr>func = None, grad_func = Some two_x\<rparr>"
  let ?h = "[\<lparr>hist_x = NDArray [1 / 2], hist_grad = Float 2\<rparr>,
          \<lparr>hist_x = NDArray [1 / 4], hist_grad = NDArray [1]\<rparr>]"
  note r = two_updates
  have ne: "?h \<noteq> []" by simp
  from history_chain_consistent [OF r ne]
  have a: "NDArray [1 / 4] = hist_x (last ?h)" and
    b: "\<forall>k. 0 < k \<and> k < length ?h \<longrightarrow>
       subtract (hist_x (?h ! (k - 1))) (elementwise (\<lambda>g. fmul (1 / 4) g) (hist_grad (?h ! k)))
         = Inr (hist_x (?h ! k))"
    by blast+
  from b [rule_format, of 1]
  have "subtract (NDArray [1 / 2]) (elementwise (\<lambda>g. fmul (1 / 4) g) (NDArray [1])) = Inr (NDArray [1 / 4])"
    by simp
  with r a show ?thesis by blast
qed

end
